theory Spec2Isabelle
  imports Main "HOL-Library.AList"
begin

section \<open>Rate limiter (rate-limit.ts)\<close>

text \<open>
  The limiter keeps one entry per identifier in a \<^verbatim>\<open>Map\<close> that is never iterated by
  \<^verbatim>\<open>checkLimit\<close>, so the store is a partial function. Counts and millisecond time stamps
  are non-negative integers; \<^verbatim>\<open>Math.max(0, max - entry.count)\<close> is the truncating
  subtraction of \<^typ>\<open>nat\<close>. The window length and the two caps are read from the
  configuration when the limiter is built.
\<close>

record RateLimitStore =
  count :: nat
  resetTime :: nat

record RateLimiter =
  store :: "string \<rightharpoonup> RateLimitStore"
  windowMs :: nat
  maxRequests :: nat
  maxWsMessages :: nat

record RateLimitResult =
  allowed :: bool
  remaining :: nat
  resetAt :: nat

text \<open>\<^verbatim>\<open>checkLimit(identifier, isWebSocket)\<close>, with the value of \<^verbatim>\<open>Date.now()\<close> passed in.\<close>

definition checkLimit ::
  "RateLimiter \<Rightarrow> nat \<Rightarrow> string \<Rightarrow> bool \<Rightarrow> RateLimitResult \<times> RateLimiter" where
  "checkLimit rl now identifier isWebSocket =
     (let key = identifier;
          max = (if isWebSocket then maxWsMessages rl else maxRequests rl);
          fresh = \<lparr>count = 0, resetTime = now + windowMs rl\<rparr>;
          entry0 = (case store rl key of
                      None \<Rightarrow> fresh
                    | Some e \<Rightarrow> if now > resetTime e then fresh else e);
          entry = entry0\<lparr>count := count entry0 + 1\<rparr>
      in (\<lparr>allowed = (count entry \<le> max),
           remaining = max - count entry,
           resetAt = resetTime entry\<rparr>,
          rl\<lparr>store := (store rl)(key \<mapsto> entry)\<rparr>))"

definition rateLimitWebSocket ::
  "RateLimiter \<Rightarrow> nat \<Rightarrow> string \<Rightarrow> RateLimitResult \<times> RateLimiter" where
  "rateLimitWebSocket rl now identifier = checkLimit rl now identifier True"

text \<open>A driver for the statements below: successive calls for one identifier, at the given times.\<close>

fun checkSeq ::
  "RateLimiter \<Rightarrow> string \<Rightarrow> bool \<Rightarrow> nat list \<Rightarrow> RateLimitResult list \<times> RateLimiter" where
  "checkSeq rl k w [] = ([], rl)"
| "checkSeq rl k w (t # ts) =
     (case checkLimit rl t k w of (r, rl') \<Rightarrow>
        (case checkSeq rl' k w ts of (rs, rl'') \<Rightarrow> (r # rs, rl'')))"

text \<open>The cap that applies to a call: \<^verbatim>\<open>isWebSocket ? this.maxWsMessages : this.maxRequests\<close>.\<close>

definition cap :: "RateLimiter \<Rightarrow> bool \<Rightarrow> nat" where
  "cap rl w = (if w then maxWsMessages rl else maxRequests rl)"

section \<open>Input validation (security.ts)\<close>

text \<open>
  Strings are lists of 8-bit characters, one per code unit, which covers every input in the
  Latin-1 range. Within that range the white space of \<^verbatim>\<open>String.prototype.trim\<close> and of the
  regular-expression class \<^verbatim>\<open>\s\<close> is tab, line feed, vertical tab, form feed, carriage
  return, space and no-break space. A field that is missing from the inbound JSON object is the
  empty string, which is falsy like \<^verbatim>\<open>undefined\<close>.
\<close>

definition isSpace :: "char \<Rightarrow> bool" where
  "isSpace c = (of_char c \<in> {9, 10, 11, 12, 13, 32, 160 :: nat})"

definition trim :: "string \<Rightarrow> string" where
  "trim s = rev (dropWhile isSpace (rev (dropWhile isSpace s)))"

text \<open>The class \<^verbatim>\<open>[\x00-\x08\x0B-\x0C\x0E-\x1F\x7F]\<close>.\<close>

definition isControl :: "char \<Rightarrow> bool" where
  "isControl c = (let n = of_char c :: nat
                  in n \<le> 8 \<or> n = 11 \<or> n = 12 \<or> (14 \<le> n \<and> n \<le> 31) \<or> n = 127)"

definition sanitizeInput :: "string \<Rightarrow> nat \<Rightarrow> string" where
  "sanitizeInput input maxLength =
     (if input = [] then []
      else let sanitized = take maxLength (trim input);
               sanitized = filter (\<lambda>c. of_char c \<noteq> (0::nat)) sanitized;
               sanitized = filter (\<lambda>c. \<not> isControl c) sanitized
           in sanitized)"

text \<open>The class \<^verbatim>\<open>[a-zA-Z0-9_-]\<close>.\<close>

definition isWordChar :: "char \<Rightarrow> bool" where
  "isWordChar c = (let n = of_char c :: nat
                   in (97 \<le> n \<and> n \<le> 122) \<or> (65 \<le> n \<and> n \<le> 90) \<or> (48 \<le> n \<and> n \<le> 57)
                      \<or> n = 95 \<or> n = 45)"

definition isValidUserId :: "string \<Rightarrow> bool" where
  "isValidUserId uid = (uid \<noteq> [] \<and> 1 \<le> length uid \<and> length uid \<le> 255 \<and> list_all isWordChar uid)"

definition isValidRoomName :: "string \<Rightarrow> bool" where
  "isValidRoomName rn =
     (rn \<noteq> [] \<and> 1 \<le> length rn \<and> length rn \<le> 100 \<and> list_all (\<lambda>c. isWordChar c \<or> isSpace c) rn)"

definition isValidUsername :: "string \<Rightarrow> bool" where
  "isValidUsername un = (un \<noteq> [] \<and> 1 \<le> length un \<and> length un \<le> 50 \<and> list_all isWordChar un)"

text \<open>\<^verbatim>\<open>String(x || d)\<close> on a string field.\<close>

definition orDefault :: "string \<Rightarrow> string \<Rightarrow> string" where
  "orDefault x d = (if x = [] then d else x)"

section \<open>Server state\<close>

text \<open>
  A connection is an opaque handle. \<^verbatim>\<open>Set\<close> and \<^verbatim>\<open>Map\<close> iterate in insertion order, so a
  set is a list without repetitions and the \<^verbatim>\<open>rooms\<close> map, which \<^verbatim>\<open>getRoomList\<close> iterates,
  is an association list: \<^const>\<open>AList.update\<close> overwrites in place or appends as \<^verbatim>\<open>Map.set\<close>
  does. The \<^verbatim>\<open>WeakMap\<close>s and the maps that are only looked up are partial functions.
  A \<^verbatim>\<open>Room\<close> object is reachable only through the \<^verbatim>\<open>rooms\<close> map, so mutating it is
  updating its entry.
\<close>

type_synonym ws = nat

type_synonym payload = string

record Room =
  name :: string
  clients :: "ws list"

record ClientData =
  cd_username :: string
  cd_userId :: string

text \<open>A row of the message store (the fields of \<^verbatim>\<open>Message\<close> in messages.ts that the router reads).\<close>

record Message =
  m_id :: nat
  m_messageType :: string
  m_delivered :: bool
  m_content :: string

text \<open>What the server writes to a socket; the time stamps of the JSON objects are left out.\<close>

datatype out_event =
    Error string
  | RateLimitExceeded nat nat
  | Joined string "Message list" "string list" string nat
  | Pending string Message
  | Left string
  | UserJoined string string nat
  | UserLeft string string nat
  | RoomMessage Message
  | Dm string string Message
  | DmSent string string Message
  | GroupMessage string string string "string list" Message
  | GroupMessageSent string "string list" nat nat "string list" "string list" Message
  | Signal string payload
  | SignalSent string "string option"
  | MessageStarred nat
  | MessagePinned nat string
  | Typing string "string list"
  | RoomList "(string \<times> nat) list"
  | UserList string "string list"

text \<open>The envelopes of redis.ts; the first field is \<^verbatim>\<open>from\<close>, the publishing instance.\<close>

datatype RedisPayload =
    BroadcastMessage string string out_event
  | SignalMessage string string payload

fun redisFrom :: "RedisPayload \<Rightarrow> string" where
  "redisFrom (BroadcastMessage f room d) = f"
| "redisFrom (SignalMessage f to p) = f"

text \<open>
  \<open>outbox\<close> lists the sends that succeeded, oldest first, and \<open>published\<close> the envelopes
  handed to the relay.
\<close>

record state =
  rooms :: "(string \<times> Room) list"
  clientRooms :: "ws \<rightharpoonup> string list"
  clientData :: "ws \<rightharpoonup> ClientData"
  userIdToSocket :: "string \<rightharpoonup> ws"
  typingUsers :: "string \<rightharpoonup> string list"
  rateLimiter :: RateLimiter
  outbox :: "(ws \<times> out_event) list"
  published :: "RedisPayload list"

text \<open>
  Everything a handler reads from outside the process: which sockets throw on \<^verbatim>\<open>send\<close>, the
  start-up flags, the answers of the store, of the block list and of the queue, and the clock.
  \<open>saveMessage = None\<close> is the insert throwing; \<^verbatim>\<open>getMessages\<close>, \<^verbatim>\<open>markDelivered\<close>,
  \<^verbatim>\<open>isBlocked\<close>, \<^verbatim>\<open>toggleStar\<close>, \<^verbatim>\<open>togglePin\<close> and \<^verbatim>\<open>markSeen\<close> catch their own errors.
\<close>

record env =
  sendThrows :: "ws \<Rightarrow> bool"
  redisEnabled :: bool
  instanceId :: string
  useRabbitMQ :: bool
  queueThrows :: bool
  isBlocked :: "string \<Rightarrow> string \<Rightarrow> bool"
  saveMessage :: "Message option"
  roomHistory :: "string \<Rightarrow> Message list"
  messagesFor :: "string \<Rightarrow> Message list"
  dateNow :: nat
  dateNowString :: string
  wsIdentifier :: "ws \<Rightarrow> string"

definition initial :: "RateLimiter \<Rightarrow> state" where
  "initial rl = \<lparr>rooms = [], clientRooms = Map.empty, clientData = Map.empty,
                 userIdToSocket = Map.empty, typingUsers = Map.empty, rateLimiter = rl,
                 outbox = [], published = []\<rparr>"

text \<open>\<^verbatim>\<open>Set.add\<close> and \<^verbatim>\<open>Set.delete\<close>.\<close>

definition setAdd :: "'a \<Rightarrow> 'a list \<Rightarrow> 'a list" where
  "setAdd x xs = (if x \<in> set xs then xs else xs @ [x])"

definition setDelete :: "'a \<Rightarrow> 'a list \<Rightarrow> 'a list" where
  "setDelete x xs = removeAll x xs"

section \<open>Sending and broadcasting\<close>

text \<open>
  \<open>trySend\<close> is \<^verbatim>\<open>socket.send(JSON.stringify(...))\<close> inside a \<^verbatim>\<open>try\<close> block: \<open>None\<close> is the
  exception. \<open>send\<close> is the same call where nothing of the handler follows it, so that an
  exception only ends the handler.
\<close>

definition trySend :: "env \<Rightarrow> ws \<Rightarrow> out_event \<Rightarrow> state \<Rightarrow> state option" where
  "trySend e w ev s = (if sendThrows e w then None else Some (s\<lparr>outbox := outbox s @ [(w, ev)]\<rparr>))"

definition send :: "env \<Rightarrow> ws \<Rightarrow> out_event \<Rightarrow> state \<Rightarrow> state" where
  "send e w ev s = (case trySend e w ev s of None \<Rightarrow> s | Some s' \<Rightarrow> s')"

definition publishBroadcast :: "env \<Rightarrow> string \<Rightarrow> out_event \<Rightarrow> state \<Rightarrow> state" where
  "publishBroadcast e room d s =
     (if \<not> redisEnabled e then s
      else s\<lparr>published := published s @ [BroadcastMessage (instanceId e) room d]\<rparr>)"

definition publishSignal :: "env \<Rightarrow> string \<Rightarrow> payload \<Rightarrow> state \<Rightarrow> state" where
  "publishSignal e to p s =
     (if \<not> redisEnabled e then s
      else s\<lparr>published := published s @ [SignalMessage (instanceId e) to p]\<rparr>)"

text \<open>The loop of \<^verbatim>\<open>broadcastToRoom\<close>: skip the excluded client, log and go on when a send throws.\<close>

fun sendToClients :: "env \<Rightarrow> out_event \<Rightarrow> ws option \<Rightarrow> ws list \<Rightarrow> state \<Rightarrow> state" where
  "sendToClients e d exclude [] s = s"
| "sendToClients e d exclude (client # cs) s =
     (if Some client = exclude then sendToClients e d exclude cs s
      else (case trySend e client d s of
              Some s' \<Rightarrow> sendToClients e d exclude cs s'
            | None \<Rightarrow> sendToClients e d exclude cs s))"

definition broadcastToRoom ::
  "env \<Rightarrow> string \<Rightarrow> out_event \<Rightarrow> ws option \<Rightarrow> bool \<Rightarrow> state \<Rightarrow> state" where
  "broadcastToRoom e roomName d exclude fromRedis s =
     (case map_of (rooms s) roomName of
        None \<Rightarrow> s
      | Some room \<Rightarrow>
          let s1 = sendToClients e d exclude (clients room) s
          in if redisEnabled e \<and> \<not> fromRedis then publishBroadcast e roomName d s1 else s1)"

section \<open>Room management\<close>

definition joinRoom :: "env \<Rightarrow> ws \<Rightarrow> string \<Rightarrow> string \<Rightarrow> state \<Rightarrow> state" where
  "joinRoom e w roomName uname s =
     (let room0 = (case map_of (rooms s) roomName of
                     None \<Rightarrow> \<lparr>name = roomName, clients = []\<rparr>
                   | Some r \<Rightarrow> r);
          room = room0\<lparr>clients := setAdd w (clients room0)\<rparr>;
          mine = (case clientRooms s w of None \<Rightarrow> [] | Some rs \<Rightarrow> rs);
          s1 = s\<lparr>rooms := AList.update roomName room (rooms s),
                 clientRooms := (clientRooms s)(w \<mapsto> setAdd roomName mine)\<rparr>
      in broadcastToRoom e roomName (UserJoined uname roomName (length (clients room)))
           (Some w) False s1)"

definition leaveRoom :: "env \<Rightarrow> ws \<Rightarrow> string \<Rightarrow> state \<Rightarrow> state" where
  "leaveRoom e w roomName s =
     (case map_of (rooms s) roomName of
        None \<Rightarrow> s
      | Some room0 \<Rightarrow>
          let room = room0\<lparr>clients := setDelete w (clients room0)\<rparr>;
              s1 = s\<lparr>rooms := AList.update roomName room (rooms s),
                     clientRooms := (case clientRooms s w of
                                       None \<Rightarrow> clientRooms s
                                     | Some rs \<Rightarrow> (clientRooms s)(w \<mapsto> setDelete roomName rs))\<rparr>;
              uname = (case clientData s w of
                         None \<Rightarrow> ''Anonymous''
                       | Some userData \<Rightarrow> orDefault (cd_username userData) ''Anonymous'')
          in if length (clients room) = 0
             then s1\<lparr>rooms := AList.delete roomName (rooms s1)\<rparr>
             else broadcastToRoom e roomName (UserLeft uname roomName (length (clients room)))
                    None False s1)"

definition getOnlineUsers :: "state \<Rightarrow> string \<Rightarrow> string list" where
  "getOnlineUsers s roomName =
     (case map_of (rooms s) roomName of
        None \<Rightarrow> []
      | Some room \<Rightarrow>
          concat (map (\<lambda>client. case clientData s client of
                                  None \<Rightarrow> []
                                | Some userData \<Rightarrow> [cd_username userData])
                      (clients room)))"

definition getRoomList :: "state \<Rightarrow> (string \<times> nat) list" where
  "getRoomList s = map (\<lambda>(n, room). (n, length (clients room))) (rooms s)"

definition setTyping :: "env \<Rightarrow> string \<Rightarrow> string \<Rightarrow> bool \<Rightarrow> state \<Rightarrow> state" where
  "setTyping e roomName uname isTyping s =
     (let roomTyping0 = (case typingUsers s roomName of None \<Rightarrow> [] | Some t \<Rightarrow> t);
          roomTyping = (if isTyping then setAdd uname roomTyping0 else setDelete uname roomTyping0);
          s1 = s\<lparr>typingUsers := (typingUsers s)(roomName \<mapsto> roomTyping)\<rparr>
      in broadcastToRoom e roomName (Typing roomName roomTyping) None False s1)"

text \<open>
  \<^verbatim>\<open>websocket.close\<close>. The loop runs over the connection's own set while \<^verbatim>\<open>leaveRoom\<close> deletes
  the element being visited from it; a \<^verbatim>\<open>Set\<close> iterator goes on to the remaining elements,
  so every name of the set at entry is visited once.
\<close>

definition close :: "env \<Rightarrow> ws \<Rightarrow> state \<Rightarrow> state" where
  "close e w s =
     (let userData = clientData s w;
          userRooms = clientRooms s w;
          s1 = (case userRooms of
                  None \<Rightarrow> s
                | Some rs \<Rightarrow> fold (\<lambda>roomName st. leaveRoom e w roomName st) rs s)
      in case userData of
           None \<Rightarrow> s1
         | Some d \<Rightarrow> s1\<lparr>userIdToSocket := (userIdToSocket s1)(cd_userId d := None)\<rparr>)"

section \<open>The message handler of the server\<close>

text \<open>
  The parsed inbound object, by its \<^verbatim>\<open>type\<close>. The fields are the ones the router reads
  (\<^verbatim>\<open>mediaUrl\<close>, \<^verbatim>\<open>mediaType\<close>, \<^verbatim>\<open>encrypted\<close> and \<^verbatim>\<open>encryptedContent\<close> only travel to the
  store). The four key-exchange kinds of the server are outside this model: they read
  \<^verbatim>\<open>clientData\<close> and \<^verbatim>\<open>userIdToSocket\<close> and change neither rooms nor presence.
  \<open>GroupMessageReq\<close> has a branch in websocket-demo/server.ts only.
\<close>

datatype inbound =
    JoinReq string string string
  | LeaveReq string
  | MessageReq string string
  | DmReq string string
  | GroupMessageReq "string list" string string
  | SignalReq string "payload option"
  | MessageSeenReq "nat option"
  | StarMessageReq nat
  | PinMessageReq nat string
  | TypingReq string bool
  | GetRoomsReq
  | GetUsersReq string

text \<open>The loop that delivers the pending messages after \<^verbatim>\<open>joined\<close>; \<open>None\<close> is a send throwing.\<close>

fun deliverPending :: "env \<Rightarrow> ws \<Rightarrow> Message list \<Rightarrow> state \<Rightarrow> state option" where
  "deliverPending e w [] s = Some s"
| "deliverPending e w (msg # msgs) s =
     (case trySend e w
             (Pending (if m_messageType msg = ''text'' then ''dm'' else ''group_message'') msg) s of
        None \<Rightarrow> None
      | Some s' \<Rightarrow> deliverPending e w msgs s')"

definition joinBranch :: "env \<Rightarrow> ws \<Rightarrow> string \<Rightarrow> string \<Rightarrow> string \<Rightarrow> state \<Rightarrow> state" where
  "joinBranch e w username0 room0 userId0 s =
     (let uname = sanitizeInput (orDefault username0 ''Anonymous'') 50;
          roomName = sanitizeInput (orDefault room0 ''general'') 100;
          uid = orDefault userId0 (dateNowString e)
      in if \<not> isValidUsername uname then send e w (Error ''Invalid username format'') s
         else if \<not> isValidRoomName roomName then send e w (Error ''Invalid room name format'') s
         else if \<not> isValidUserId uid then send e w (Error ''Invalid userId format'') s
         else
           let s1 = s\<lparr>clientData := (clientData s)(w \<mapsto> \<lparr>cd_username = uname, cd_userId = uid\<rparr>),
                      userIdToSocket := (userIdToSocket s)(uid \<mapsto> w)\<rparr>;
               s2 = joinRoom e w roomName uname s1;
               history = roomHistory e roomName;
               users = getOnlineUsers s2 roomName;
               allPending = messagesFor e uid;
               pendingDMs = filter (\<lambda>m. \<not> m_delivered m) allPending
           in case trySend e w (Joined roomName history users uid (length pendingDMs)) s2 of
                None \<Rightarrow> s2
              | Some s3 \<Rightarrow>
                  (case deliverPending e w pendingDMs s3 of None \<Rightarrow> s3 | Some s4 \<Rightarrow> s4))"

definition leaveBranch :: "env \<Rightarrow> ws \<Rightarrow> string \<Rightarrow> state \<Rightarrow> state" where
  "leaveBranch e w room0 s =
     (let roomName = orDefault room0 ''general''
      in send e w (Left roomName) (leaveRoom e w roomName s))"

definition messageBranch :: "env \<Rightarrow> ws \<Rightarrow> string \<Rightarrow> string \<Rightarrow> state \<Rightarrow> state" where
  "messageBranch e w content0 room0 s =
     (case clientData s w of
        None \<Rightarrow> send e w (Error ''Not authenticated. Please join first.'') s
      | Some userData \<Rightarrow>
          let content = sanitizeInput (trim content0) 5000;
              roomName = sanitizeInput (orDefault room0 ''general'') 100
          in if content = [] then send e w (Error ''Content required'') s
             else if \<not> isValidRoomName roomName then send e w (Error ''Invalid room name'') s
             else (case saveMessage e of
                     None \<Rightarrow> send e w (Error ''Failed to save message'') s
                   | Some savedMsg \<Rightarrow>
                       broadcastToRoom e roomName (RoomMessage savedMsg) None False s))"

text \<open>
  The \<^verbatim>\<open>dm\<close> branch waits three times: for \<^verbatim>\<open>userManager.isBlocked\<close>, for
  \<^verbatim>\<open>messageManager.saveMessage\<close>, and then for \<^verbatim>\<open>queueOfflineMessage\<close> or
  \<^verbatim>\<open>markDelivered\<close>. While it waits the server handles other events; \<open>duringBlockCheck\<close>,
  \<open>duringSave\<close> and \<open>duringLast\<close> are what those events do to the state. The identity is
  read when the event arrives, the presence map only once the block check has returned, and
  the sends go to the socket found then.

  \<open>dmTry\<close> is the \<^verbatim>\<open>try\<close> block: \<open>Inl\<close> is an exception, with the state reached when it
  was thrown, \<open>Inr\<close> the block running to its end.
\<close>

definition dmTry ::
  "env \<Rightarrow> ws \<Rightarrow> ClientData \<Rightarrow> string \<Rightarrow> ws option \<Rightarrow> (state \<Rightarrow> state) \<Rightarrow> (state \<Rightarrow> state)
     \<Rightarrow> state \<Rightarrow> state + state" where
  "dmTry e w userData recipientId recipientSocket duringSave duringLast s =
     (let s1 = duringSave s
      in case saveMessage e of
           None \<Rightarrow> Inl s1
         | Some savedMsg \<Rightarrow>
             (case recipientSocket of
                None \<Rightarrow>
                  if useRabbitMQ e
                  then (let s2 = duringLast s1
                        in if queueThrows e then Inl s2
                           else (case trySend e w (DmSent recipientId ''offline'' savedMsg) s2 of
                                   None \<Rightarrow> Inl s2
                                 | Some s3 \<Rightarrow> Inr s3))
                  else (case trySend e w (DmSent recipientId ''offline'' savedMsg) s1 of
                          None \<Rightarrow> Inl s1
                        | Some s2 \<Rightarrow> Inr s2)
              | Some rsock \<Rightarrow>
                  (case trySend e rsock
                          (Dm (cd_userId userData) (cd_username userData) savedMsg) s1 of
                     None \<Rightarrow> Inl s1
                   | Some s2 \<Rightarrow>
                       (let s3 = duringLast s2
                        in case trySend e w (DmSent recipientId ''delivered'' savedMsg) s3 of
                             None \<Rightarrow> Inl s3
                           | Some s4 \<Rightarrow> Inr s4))))"

definition dmBranch ::
  "env \<Rightarrow> ws \<Rightarrow> string \<Rightarrow> string \<Rightarrow> (state \<Rightarrow> state) \<Rightarrow> (state \<Rightarrow> state) \<Rightarrow> (state \<Rightarrow> state)
     \<Rightarrow> state \<Rightarrow> state" where
  "dmBranch e w recipientId0 content0 duringBlockCheck duringSave duringLast s =
     (case clientData s w of
        None \<Rightarrow> send e w (Error ''Not authenticated'') s
      | Some userData \<Rightarrow>
          let recipientId = recipientId0;
              content = sanitizeInput (trim content0) 5000
          in if \<not> isValidUserId recipientId
             then send e w (Error ''Invalid recipientId format'') s
             else if recipientId = [] \<or> content = []
             then send e w (Error ''recipientId and content required'') s
             else
               let s1 = duringBlockCheck s
               in if isBlocked e (cd_userId userData) recipientId
                  then send e w (Error ''Cannot send message to this user'') s1
                  else
                    let recipientSocket = userIdToSocket s1 recipientId
                    in (case dmTry e w userData recipientId recipientSocket duringSave
                               duringLast s1 of
                          Inr s' \<Rightarrow> s'
                        | Inl s' \<Rightarrow> send e w (Error ''Failed to send DM'') s'))"

definition signalBranch :: "env \<Rightarrow> ws \<Rightarrow> string \<Rightarrow> payload option \<Rightarrow> state \<Rightarrow> state" where
  "signalBranch e w to p0 s =
     (case clientData s w of
        None \<Rightarrow> send e w (Error ''Not authenticated'') s
      | Some userData \<Rightarrow>
          if \<not> isValidUserId to then send e w (Error ''Invalid recipientId format'') s
          else (case p0 of
                  None \<Rightarrow> send e w (Error ''Missing signal payload'') s
                | Some p \<Rightarrow>
                    (case userIdToSocket s to of
                       None \<Rightarrow>
                         if redisEnabled e
                         then send e w (SignalSent to (Some ''redis'')) (publishSignal e to p s)
                         else send e w (Error ''Recipient not connected'') s
                     | Some rsock \<Rightarrow>
                         (case trySend e rsock (Signal (cd_userId userData) p) s of
                            None \<Rightarrow> send e w (Error ''Failed to forward signal'') s
                          | Some s1 \<Rightarrow>
                              (case trySend e w (SignalSent to None) s1 of
                                 None \<Rightarrow> send e w (Error ''Failed to forward signal'') s1
                               | Some s2 \<Rightarrow> s2)))))"

definition messageSeenBranch :: "env \<Rightarrow> ws \<Rightarrow> nat option \<Rightarrow> state \<Rightarrow> state" where
  "messageSeenBranch e w messageId s =
     (case clientData s w of
        None \<Rightarrow> s
      | Some userData \<Rightarrow> (case messageId of None \<Rightarrow> s | Some i \<Rightarrow> s))"

definition starMessageBranch :: "env \<Rightarrow> ws \<Rightarrow> nat \<Rightarrow> state \<Rightarrow> state" where
  "starMessageBranch e w messageId s =
     (case clientData s w of
        None \<Rightarrow> s
      | Some userData \<Rightarrow>
          (case trySend e w (MessageStarred messageId) s of None \<Rightarrow> s | Some s1 \<Rightarrow> s1))"

definition pinMessageBranch :: "env \<Rightarrow> ws \<Rightarrow> nat \<Rightarrow> string \<Rightarrow> state \<Rightarrow> state" where
  "pinMessageBranch e w messageId roomName s =
     (case clientData s w of
        None \<Rightarrow> s
      | Some userData \<Rightarrow>
          broadcastToRoom e roomName (MessagePinned messageId (cd_username userData)) None False s)"

definition typingBranch :: "env \<Rightarrow> ws \<Rightarrow> string \<Rightarrow> bool \<Rightarrow> state \<Rightarrow> state" where
  "typingBranch e w room0 isTyping s =
     (case clientData s w of
        None \<Rightarrow> s
      | Some userData \<Rightarrow> setTyping e (orDefault room0 ''general'') (cd_username userData) isTyping s)"

definition getRoomsBranch :: "env \<Rightarrow> ws \<Rightarrow> state \<Rightarrow> state" where
  "getRoomsBranch e w s = send e w (RoomList (getRoomList s)) s"

definition getUsersBranch :: "env \<Rightarrow> ws \<Rightarrow> string \<Rightarrow> state \<Rightarrow> state" where
  "getUsersBranch e w room0 s =
     (let roomName = orDefault room0 ''general''
      in send e w (UserList roomName (getOnlineUsers s roomName)) s)"

text \<open>
  The chain of \<^verbatim>\<open>if (data.type === ...)\<close>; a type without a branch falls through. The
  dispatch takes one event at a time: here the \<^verbatim>\<open>dm\<close> branch runs with no other event handled
  while it waits.
\<close>

fun dispatch :: "env \<Rightarrow> ws \<Rightarrow> inbound \<Rightarrow> state \<Rightarrow> state" where
  "dispatch e w (JoinReq username0 room0 userId0) s = joinBranch e w username0 room0 userId0 s"
| "dispatch e w (LeaveReq room0) s = leaveBranch e w room0 s"
| "dispatch e w (MessageReq content0 room0) s = messageBranch e w content0 room0 s"
| "dispatch e w (DmReq recipientId0 content0) s =
     dmBranch e w recipientId0 content0 (\<lambda>st. st) (\<lambda>st. st) (\<lambda>st. st) s"
| "dispatch e w (SignalReq to p0) s = signalBranch e w to p0 s"
| "dispatch e w (MessageSeenReq messageId) s = messageSeenBranch e w messageId s"
| "dispatch e w (StarMessageReq messageId) s = starMessageBranch e w messageId s"
| "dispatch e w (PinMessageReq messageId roomName) s = pinMessageBranch e w messageId roomName s"
| "dispatch e w (TypingReq room0 isTyping) s = typingBranch e w room0 isTyping s"
| "dispatch e w GetRoomsReq s = getRoomsBranch e w s"
| "dispatch e w (GetUsersReq room0) s = getUsersBranch e w room0 s"
| "dispatch e w (GroupMessageReq recipientIds content0 groupName0) s = s"

text \<open>
  \<^verbatim>\<open>websocket.message\<close>: the rate-limit gate, the JSON parse (\<open>None\<close> is a frame that does not
  parse), then the dispatch. A handler is taken as one step: the changes it makes to the maps
  happen before its first \<^verbatim>\<open>await\<close>. What other events do while a handler waits is modelled
  for the \<^verbatim>\<open>dm\<close> branch, whose answer depends on when it reads the presence map.
\<close>

definition message :: "env \<Rightarrow> ws \<Rightarrow> inbound option \<Rightarrow> state \<Rightarrow> state" where
  "message e w msg s =
     (case rateLimitWebSocket (rateLimiter s) (dateNow e) (wsIdentifier e w) of
        (rateLimit, rl') \<Rightarrow>
          let s0 = s\<lparr>rateLimiter := rl'\<rparr>
          in if \<not> allowed rateLimit
             then send e w (RateLimitExceeded (remaining rateLimit) (resetAt rateLimit)) s0
             else (case msg of
                     None \<Rightarrow> send e w (Error ''Invalid JSON'') s0
                   | Some d \<Rightarrow> dispatch e w d s0))"

section \<open>The relay subscription (redis.ts and the callback registered by the server)\<close>

definition redisCallback :: "env \<Rightarrow> RedisPayload \<Rightarrow> state \<Rightarrow> state" where
  "redisCallback e msg s =
     (case msg of
        BroadcastMessage f room d \<Rightarrow> broadcastToRoom e room d None True s
      | SignalMessage f to p \<Rightarrow>
          (case userIdToSocket s to of
             None \<Rightarrow> s
           | Some rsock \<Rightarrow> send e rsock (Signal f p) s))"

text \<open>
  The listener that \<^verbatim>\<open>onRedisMessage(handler)\<close> installs, applied to one relay message;
  \<open>None\<close> is a message that does not parse or parses to \<^verbatim>\<open>null\<close>. Nothing is installed
  when the relay is off.
\<close>

definition onRedisMessage ::
  "env \<Rightarrow> (RedisPayload \<Rightarrow> state \<Rightarrow> state) \<Rightarrow> RedisPayload option \<Rightarrow> state \<Rightarrow> state" where
  "onRedisMessage e handler msg s =
     (if \<not> redisEnabled e then s
      else (case msg of
              None \<Rightarrow> s
            | Some parsed \<Rightarrow> if redisFrom parsed = instanceId e then s else handler parsed s))"

section \<open>The group-message branch of websocket-demo/server.ts\<close>

text \<open>
  The loop over \<^verbatim>\<open>recipientIds\<close> with its counters; \<open>Inl\<close> is an exception leaving the loop,
  with the state reached so far.
\<close>

fun groupLoop ::
  "env \<Rightarrow> out_event \<Rightarrow> string list \<Rightarrow> state \<Rightarrow> nat \<Rightarrow> string list
     \<Rightarrow> state + (state \<times> nat \<times> string list)" where
  "groupLoop e ev [] s sentCount offlineRecipients = Inr (s, sentCount, offlineRecipients)"
| "groupLoop e ev (recipientId # rest) s sentCount offlineRecipients =
     (case userIdToSocket s recipientId of
        Some rsock \<Rightarrow>
          (case trySend e rsock ev s of
             None \<Rightarrow> Inl s
           | Some s1 \<Rightarrow> groupLoop e ev rest s1 (sentCount + 1) offlineRecipients)
      | None \<Rightarrow>
          if useRabbitMQ e \<and> queueThrows e then Inl s
          else groupLoop e ev rest s sentCount (offlineRecipients @ [recipientId]))"

definition groupTry ::
  "env \<Rightarrow> ws \<Rightarrow> ClientData \<Rightarrow> string list \<Rightarrow> string \<Rightarrow> state \<Rightarrow> state + state" where
  "groupTry e w userData recipientIds groupName s =
     (case saveMessage e of
        None \<Rightarrow> Inl s
      | Some savedMsg \<Rightarrow>
          (case groupLoop e
                  (GroupMessage (cd_userId userData) (cd_username userData) groupName recipientIds
                     savedMsg)
                  recipientIds s 0 [] of
             Inl s1 \<Rightarrow> Inl s1
           | Inr (s1, sentCount, offlineRecipients) \<Rightarrow>
               (case trySend e w
                       (GroupMessageSent groupName recipientIds sentCount
                          (length offlineRecipients) offlineRecipients [] savedMsg) s1 of
                  None \<Rightarrow> Inl s1
                | Some s2 \<Rightarrow> Inr s2)))"

definition groupMessageBranch ::
  "env \<Rightarrow> ws \<Rightarrow> string list \<Rightarrow> string \<Rightarrow> string \<Rightarrow> state \<Rightarrow> state" where
  "groupMessageBranch e w recipientIds content0 groupName0 s =
     (case clientData s w of
        None \<Rightarrow>
          send e w (Error ''Not authenticated. Please send 'join' message first with username and userId'') s
      | Some userData \<Rightarrow>
          let content = trim content0;
              groupName = orDefault groupName0 ''private-group''
          in if length recipientIds = 0 \<or> content = []
             then send e w (Error ''recipientIds and content required'') s
             else (case groupTry e w userData recipientIds groupName s of
                     Inr s' \<Rightarrow> s'
                   | Inl s' \<Rightarrow> send e w (Error ''Failed to send group message'') s'))"

section \<open>Reachable states\<close>

text \<open>
  The states the server goes through: any client event, any close and any relay message, each
  in an environment of its own.
\<close>

inductive reachable :: "state \<Rightarrow> bool" where
  reach_initial: "reachable (initial rl)"
| reach_message: "reachable s \<Longrightarrow> reachable (message e w msg s)"
| reach_close: "reachable s \<Longrightarrow> reachable (close e w s)"
| reach_redis: "reachable s \<Longrightarrow> reachable (onRedisMessage e (redisCallback e) msg s)"

text \<open>Membership of a connection in a room, read from the \<^verbatim>\<open>rooms\<close> map.\<close>

definition isMember :: "state \<Rightarrow> ws \<Rightarrow> string \<Rightarrow> bool" where
  "isMember s w roomName =
     (case map_of (rooms s) roomName of None \<Rightarrow> False | Some room \<Rightarrow> w \<in> set (clients room))"

definition tracksRoom :: "state \<Rightarrow> ws \<Rightarrow> string \<Rightarrow> bool" where
  "tracksRoom s w roomName =
     (case clientRooms s w of None \<Rightarrow> False | Some rs \<Rightarrow> roomName \<in> set rs)"

section \<open>Notions used in the statements\<close>

text \<open>The sends of one broadcast that succeed, in the order of the member set.\<close>

definition deliveries :: "env \<Rightarrow> out_event \<Rightarrow> ws option \<Rightarrow> ws list \<Rightarrow> (ws \<times> out_event) list" where
  "deliveries e d exclude cs = map (\<lambda>c. (c, d)) (filter (\<lambda>c. Some c \<noteq> exclude \<and> \<not> sendThrows e c) cs)"

text \<open>The two invariants of the room registry, and states that agree on every map.\<close>

definition roomsNonEmpty :: "state \<Rightarrow> bool" where
  "roomsNonEmpty s = list_all (\<lambda>(n, room). clients room \<noteq> []) (rooms s)"

definition membershipConsistent :: "state \<Rightarrow> bool" where
  "membershipConsistent s = (\<forall>w R. isMember s w R = tracksRoom s w R)"

definition sameMaps :: "state \<Rightarrow> state \<Rightarrow> bool" where
  "sameMaps s s' = (rooms s' = rooms s \<and> clientRooms s' = clientRooms s
      \<and> clientData s' = clientData s \<and> userIdToSocket s' = userIdToSocket s
      \<and> typingUsers s' = typingUsers s)"

definition inv :: "state \<Rightarrow> bool" where
  "inv s = (roomsNonEmpty s \<and> membershipConsistent s)"

section \<open>Concrete configurations used in the examples\<close>

definition limiter0 :: RateLimiter where
  "limiter0 = \<lparr>store = Map.empty, windowMs = 60000, maxRequests = 100, maxWsMessages = 5\<rparr>"

definition msg0 :: Message where
  "msg0 = \<lparr>m_id = 1, m_messageType = ''text'', m_delivered = False, m_content = ''hi''\<rparr>"

text \<open>An environment in which nothing fails, nobody is blocked and the relay and the queue are off.\<close>

definition env0 :: env where
  "env0 = \<lparr>sendThrows = (\<lambda>w. False), redisEnabled = False, instanceId = ''A'',
            useRabbitMQ = False, queueThrows = False, isBlocked = (\<lambda>a b. False),
            saveMessage = Some msg0,
            roomHistory = (\<lambda>r. []), messagesFor = (\<lambda>u. []), dateNow = 0,
            dateNowString = ''0'', wsIdentifier = (\<lambda>w. ''ws:local'')\<rparr>"

definition env_relay :: env where
  "env_relay = env0\<lparr>redisEnabled := True\<rparr>"



definition env_fail :: env where
  "env_fail = env0\<lparr>sendThrows := (\<lambda>w. w = 2)\<rparr>"

text \<open>
  Connection 1 joins \<open>general\<close> as alice, then connection 2 as bob, then connection 3 as carol.
  The join branch of websocket-demo/server.ts makes the same three calls (\<^verbatim>\<open>clientData.set\<close>,
  \<^verbatim>\<open>userIdToSocket.set\<close>, \<^verbatim>\<open>joinRoom\<close>) and leaves the same maps.
\<close>

definition alice_in :: state where
  "alice_in = message env0 1 (Some (JoinReq ''alice'' ''general'' ''u1'')) (initial limiter0)"

definition both_in :: state where
  "both_in = message env0 2 (Some (JoinReq ''bob'' ''general'' ''u2'')) alice_in"

definition three_in :: state where
  "three_in = message env0 3 (Some (JoinReq ''carol'' ''general'' ''u3'')) both_in"

text \<open>After alice, connection 2 joins another room under alice's user id.\<close>

definition superseded :: state where
  "superseded = message env0 2 (Some (JoinReq ''alice'' ''lobby'' ''u1'')) alice_in"

section \<open>Properties of the rate limiter\<close>

lemma checkLimit_in_window:
  assumes "store rl k = Some e" and "t \<le> resetTime e"
  shows "checkLimit rl t k w =
           (\<lparr>allowed = (count e + 1 \<le> cap rl w), remaining = cap rl w - (count e + 1),
             resetAt = resetTime e\<rparr>,
            rl\<lparr>store := (store rl)(k \<mapsto> e\<lparr>count := count e + 1\<rparr>)\<rparr>)"
  using assms by (simp add: checkLimit_def cap_def Let_def)

lemma checkLimit_new_window:
  assumes "store rl k = None \<or> (\<exists>e. store rl k = Some e \<and> resetTime e < t)"
  shows "checkLimit rl t k w =
           (\<lparr>allowed = (1 \<le> cap rl w), remaining = cap rl w - 1, resetAt = t + windowMs rl\<rparr>,
            rl\<lparr>store := (store rl)(k \<mapsto> \<lparr>count = 1, resetTime = t + windowMs rl\<rparr>)\<rparr>)"
  using assms by (auto simp: checkLimit_def cap_def Let_def)

lemma checkSeq_in_window:
  assumes "store rl k = Some e" and "\<forall>t\<in>set ts. t \<le> resetTime e"
    and "checkSeq rl k w ts = (rs, rl')"
  shows "length rs = length ts
       \<and> (\<forall>i<length ts. allowed (rs ! i) = (count e + i + 1 \<le> cap rl w)
                        \<and> resetAt (rs ! i) = resetTime e)
       \<and> store rl' k = Some (e\<lparr>count := count e + length ts\<rparr>)
       \<and> windowMs rl' = windowMs rl \<and> cap rl' w = cap rl w"
  using assms
proof (induction ts arbitrary: rl e rs)
  case Nil
  then show ?case by simp
next
  case (Cons t ts)
  let ?e1 = "e\<lparr>count := count e + 1\<rparr>"
  let ?rl1 = "rl\<lparr>store := (store rl)(k \<mapsto> ?e1)\<rparr>"
  have step: "checkLimit rl t k w =
      (\<lparr>allowed = (count e + 1 \<le> cap rl w), remaining = cap rl w - (count e + 1),
        resetAt = resetTime e\<rparr>, ?rl1)"
    using Cons.prems(1,2) by (simp add: checkLimit_in_window)
  obtain rs1 where rest: "checkSeq ?rl1 k w ts = (rs1, rl')"
    and rs: "rs = \<lparr>allowed = (count e + 1 \<le> cap rl w), remaining = cap rl w - (count e + 1),
                   resetAt = resetTime e\<rparr> # rs1"
    using Cons.prems(3) step by (auto split: prod.splits)
  have st1: "store ?rl1 k = Some ?e1" by simp
  have win1: "\<forall>t\<in>set ts. t \<le> resetTime ?e1" using Cons.prems(2) by simp
  note ih = Cons.IH [OF st1 win1 rest]
  have capeq: "cap ?rl1 w = cap rl w" by (simp add: cap_def)
  show ?case
  proof (intro conjI allI impI)
    show "length rs = length (t # ts)" using ih rs by simp
  next
    fix i assume i: "i < length (t # ts)"
    show "allowed (rs ! i) = (count e + i + 1 \<le> cap rl w)"
    proof (cases i)
      case 0
      then show ?thesis using rs by simp
    next
      case (Suc j)
      then have "j < length ts" using i by simp
      then show ?thesis using ih Suc rs capeq by simp
    qed
    show "resetAt (rs ! i) = resetTime e"
    proof (cases i)
      case 0
      then show ?thesis using rs by simp
    next
      case (Suc j)
      then have "j < length ts" using i by simp
      then show ?thesis using ih Suc rs by simp
    qed
  next
    show "store rl' k = Some (e\<lparr>count := count e + length (t # ts)\<rparr>)"
      using ih by simp
  next
    show "windowMs rl' = windowMs rl" using ih by simp
  next
    show "cap rl' w = cap rl w" using ih capeq by simp
  qed
qed

lemma length_checkSeq: "length (fst (checkSeq rl k w ts)) = length ts"
proof (induction ts arbitrary: rl)
  case Nil
  show ?case by simp
next
  case (Cons t ts)
  obtain r rl1 where a: "checkLimit rl t k w = (r, rl1)" by (cases "checkLimit rl t k w")
  obtain rs rl2 where b: "checkSeq rl1 k w ts = (rs, rl2)" by (cases "checkSeq rl1 k w ts")
  have "length rs = length ts" using Cons.IH [of rl1] b by simp
  then show ?case using a b by simp
qed

text \<open>
  Claim C3. With a cap of 5 and a window of 60 s, let a window open at time \<open>t1\<close> for an
  identifier (no entry, or an entry whose reset time has passed) and let further calls follow
  within the window. Then the first five calls are allowed and every later one, the sixth
  included, is refused; every call reports the same reset time \<open>t1 + 60000\<close>, so a refused call
  does not move it; and the first call after the reset time is allowed, with the count back at
  1 and a reset time one full window after that call.
\<close>

theorem rate_limit_window:
  assumes win: "windowMs rl = 60000" and cap5: "cap rl w = 5"
    and fresh: "store rl k = None \<or> (\<exists>e. store rl k = Some e \<and> resetTime e < t1)"
    and len: "5 \<le> length ts" and inwin: "\<forall>t\<in>set ts. t \<le> t1 + 60000"
    and run: "checkSeq rl k w (t1 # ts) = (rs, rl')"
  shows "(\<forall>i<length rs. allowed (rs ! i) = (i < 5) \<and> resetAt (rs ! i) = t1 + 60000)
       \<and> \<not> allowed (rs ! 5)
       \<and> store rl' k = Some \<lparr>count = length ts + 1, resetTime = t1 + 60000\<rparr>
       \<and> (\<forall>t'. t1 + 60000 < t' \<longrightarrow>
             checkLimit rl' t' k w =
               (\<lparr>allowed = True, remaining = 4, resetAt = t' + 60000\<rparr>,
                rl'\<lparr>store := (store rl')(k \<mapsto> \<lparr>count = 1, resetTime = t' + 60000\<rparr>)\<rparr>))"
proof -
  let ?e1 = "\<lparr>count = 1, resetTime = t1 + 60000\<rparr>"
  let ?rl1 = "rl\<lparr>store := (store rl)(k \<mapsto> ?e1)\<rparr>"
  let ?r1 = "\<lparr>allowed = True, remaining = 4, resetAt = t1 + 60000\<rparr>"
  have first: "checkLimit rl t1 k w = (?r1, ?rl1)"
    using checkLimit_new_window [OF fresh, of w] win cap5 by simp
  obtain rs1 where rest: "checkSeq ?rl1 k w ts = (rs1, rl')" and rs: "rs = ?r1 # rs1"
    using run first by (auto split: prod.splits)
  have st1: "store ?rl1 k = Some ?e1" by simp
  have win1: "\<forall>t\<in>set ts. t \<le> resetTime ?e1" using inwin by simp
  have "cap ?rl1 w = cap rl w" by (simp add: cap_def)
  then have cap1: "cap ?rl1 w = 5" using cap5 by simp
  note tail = checkSeq_in_window [OF st1 win1 rest]
  have lrs: "length rs = Suc (length ts)" using tail rs by simp
  have each: "allowed (rs ! i) = (i < 5) \<and> resetAt (rs ! i) = t1 + 60000" if "i < length rs" for i
  proof (cases i)
    case 0
    then show ?thesis using rs by simp
  next
    case (Suc j)
    then have "j < length ts" using that lrs by simp
    then have "allowed (rs1 ! j) = (1 + j + 1 \<le> 5) \<and> resetAt (rs1 ! j) = t1 + 60000"
      using tail cap1 by simp
    then show ?thesis using Suc rs by auto
  qed
  have six: "\<not> allowed (rs ! 5)"
    using each [of 5] lrs len by simp
  have final: "store rl' k = Some \<lparr>count = length ts + 1, resetTime = t1 + 60000\<rparr>"
    using tail by simp
  have win': "windowMs rl' = 60000" and cap': "cap rl' w = 5"
    using tail win cap1 by simp_all
  have after: "checkLimit rl' t' k w =
               (\<lparr>allowed = True, remaining = 4, resetAt = t' + 60000\<rparr>,
                rl'\<lparr>store := (store rl')(k \<mapsto> \<lparr>count = 1, resetTime = t' + 60000\<rparr>)\<rparr>)"
    if "t1 + 60000 < t'" for t'
  proof -
    have "store rl' k = None \<or> (\<exists>e. store rl' k = Some e \<and> resetTime e < t')"
      using final that by simp
    from checkLimit_new_window [OF this, of w] show ?thesis using win' cap' by simp
  qed
  show ?thesis using each six final after by blast
qed

theorem rate_limit_window_witness:
  "map allowed (fst (checkSeq limiter0 ''user:alice'' True [1000, 1001, 1002, 1003, 1004, 1005]))
     = [True, True, True, True, True, False]
   \<and> store (snd (checkSeq limiter0 ''user:alice'' True [1000, 1001, 1002, 1003, 1004, 1005]))
       ''user:alice'' = Some \<lparr>count = 6, resetTime = 61000\<rparr>
   \<and> fst (checkLimit (snd (checkSeq limiter0 ''user:alice'' True [1000, 1001, 1002, 1003, 1004, 1005]))
            61001 ''user:alice'' True)
       = \<lparr>allowed = True, remaining = 4, resetAt = 121001\<rparr>"
proof -
  define run where "run = checkSeq limiter0 ''user:alice'' True (1000 # [1001, 1002, 1003, 1004, 1005])"
  have run: "checkSeq limiter0 ''user:alice'' True (1000 # [1001, 1002, 1003, 1004, 1005])
               = (fst run, snd run)"
    by (simp add: run_def)
  have h1: "windowMs limiter0 = 60000" by (simp add: limiter0_def)
  have h2: "cap limiter0 True = 5" by (simp add: limiter0_def cap_def)
  have h3: "store limiter0 ''user:alice'' = None
             \<or> (\<exists>e. store limiter0 ''user:alice'' = Some e \<and> resetTime e < 1000)"
    by (simp add: limiter0_def)
  have h4: "5 \<le> length [1001, 1002, 1003, 1004, 1005::nat]" by simp
  have h5: "\<forall>t\<in>set [1001, 1002, 1003, 1004, 1005::nat]. t \<le> 1000 + 60000" by simp
  note main = rate_limit_window [OF h1 h2 h3 h4 h5 run]
  have len: "length (fst run) = 6" unfolding run_def by (simp only: length_checkSeq) simp
  have nths: "\<And>i. i < 6 \<Longrightarrow> allowed (fst run ! i) = (i < 5)" using main len by simp
  have six: "i < 6 \<longleftrightarrow> i = 0 \<or> i = 1 \<or> i = 2 \<or> i = 3 \<or> i = 4 \<or> i = 5" for i :: nat
    by arith
  have a: "map allowed (fst run) = [True, True, True, True, True, False]"
    unfolding list_eq_iff_nth_eq using nths len six by auto
  have b: "store (snd run) ''user:alice'' = Some \<lparr>count = 6, resetTime = 61000\<rparr>"
    using main by simp
  have "(1000::nat) + 60000 < 61001" by simp
  with main have "checkLimit (snd run) 61001 ''user:alice'' True =
               (\<lparr>allowed = True, remaining = 4, resetAt = 61001 + 60000\<rparr>,
                (snd run)\<lparr>store := (store (snd run))(''user:alice'' \<mapsto> \<lparr>count = 1, resetTime = 61001 + 60000\<rparr>)\<rparr>)"
    by blast
  then have c: "fst (checkLimit (snd run) 61001 ''user:alice'' True)
       = \<lparr>allowed = True, remaining = 4, resetAt = 121001\<rparr>"
    by simp
  show ?thesis using a b c unfolding run_def by simp
qed

section \<open>What the operations change\<close>

lemma sendToClients_eq:
  "sendToClients e d ex cs s = s\<lparr>outbox := outbox s @ deliveries e d ex cs\<rparr>"
  by (induction cs arbitrary: s) (simp_all add: trySend_def deliveries_def)

lemma broadcastToRoom_eq:
  "broadcastToRoom e rn d ex fr s =
     (case map_of (rooms s) rn of
        None \<Rightarrow> s
      | Some room \<Rightarrow>
          s\<lparr>outbox := outbox s @ deliveries e d ex (clients room),
            published := published s
               @ (if redisEnabled e \<and> \<not> fr then [BroadcastMessage (instanceId e) rn d] else [])\<rparr>)"
  by (simp add: broadcastToRoom_def sendToClients_eq publishBroadcast_def Let_def split: option.splits)

lemmas validation_defs = isSpace_def trim_def isControl_def sanitizeInput_def isWordChar_def
  isValidUserId_def isValidRoomName_def isValidUsername_def orDefault_def

lemmas room_defs = joinRoom_def leaveRoom_def broadcastToRoom_eq deliveries_def setAdd_def
  setDelete_def getOnlineUsers_def getRoomList_def trySend_def send_def

lemma sameMaps_refl [simp]: "sameMaps s s"
  by (simp add: sameMaps_def)

lemma sameMaps_trans: "sameMaps s s1 \<Longrightarrow> sameMaps s1 s2 \<Longrightarrow> sameMaps s s2"
  by (simp add: sameMaps_def)

lemma sameMaps_trySend: "trySend e w ev s = Some s' \<Longrightarrow> sameMaps s s'"
  by (auto simp: trySend_def sameMaps_def split: if_splits)

lemma sameMaps_send [simp]: "sameMaps s (send e w ev s)"
  by (simp add: send_def trySend_def sameMaps_def)

lemma sameMaps_broadcastToRoom [simp]: "sameMaps s (broadcastToRoom e rn d ex fr s)"
  by (simp add: broadcastToRoom_eq sameMaps_def split: option.splits)

lemma sameMaps_publishSignal [simp]: "sameMaps s (publishSignal e to p s)"
  by (simp add: publishSignal_def sameMaps_def)

lemma sameMaps_deliverPending: "deliverPending e w ms s = Some s' \<Longrightarrow> sameMaps s s'"
proof (induction ms arbitrary: s)
  case Nil
  then show ?case by simp
next
  case (Cons m ms)
  then show ?case
    by (auto split: option.splits dest!: sameMaps_trySend intro: sameMaps_trans)
qed

lemma list_all_update:
  "list_all P al \<Longrightarrow> P (k, v) \<Longrightarrow> list_all P (AList.update k v al)"
  by (induction al) auto

lemma list_all_delete: "list_all P al \<Longrightarrow> list_all P (AList.delete k al)"
  by (induction al) auto

lemma rooms_joinRoom:
  "rooms (joinRoom e w R u s) =
     AList.update R
       ((case map_of (rooms s) R of None \<Rightarrow> \<lparr>name = R, clients = []\<rparr> | Some r \<Rightarrow> r)
          \<lparr>clients := setAdd w (clients (case map_of (rooms s) R of
                                           None \<Rightarrow> \<lparr>name = R, clients = []\<rparr> | Some r \<Rightarrow> r))\<rparr>)
       (rooms s)"
  by (simp add: joinRoom_def broadcastToRoom_eq Let_def AList.update_conv')

lemma clientRooms_joinRoom:
  "clientRooms (joinRoom e w R u s) =
     (clientRooms s)(w \<mapsto> setAdd R (case clientRooms s w of None \<Rightarrow> [] | Some rs \<Rightarrow> rs))"
  by (simp add: joinRoom_def broadcastToRoom_eq Let_def AList.update_conv')

lemma others_joinRoom:
  "clientData (joinRoom e w R u s) = clientData s"
  "userIdToSocket (joinRoom e w R u s) = userIdToSocket s"
  "typingUsers (joinRoom e w R u s) = typingUsers s"
  "rateLimiter (joinRoom e w R u s) = rateLimiter s"
  by (simp_all add: joinRoom_def broadcastToRoom_eq Let_def AList.update_conv')

lemma setAdd_nonempty [simp]: "setAdd x xs \<noteq> []"
  by (auto simp: setAdd_def)

lemma setDelete_Nil: "setDelete x xs = [] \<longleftrightarrow> set xs \<subseteq> {x}"
  by (induction xs) (auto simp: setDelete_def)

lemma isMember_no_room: "map_of (rooms s) R = None \<Longrightarrow> \<not> isMember s w R"
  by (simp add: isMember_def)

lemma set_setAdd [simp]: "set (setAdd x xs) = insert x (set xs)"
  by (auto simp: setAdd_def)

lemma set_setDelete [simp]: "set (setDelete x xs) = set xs - {x}"
  by (auto simp: setDelete_def)

lemma roomsNonEmpty_joinRoom: "roomsNonEmpty s \<Longrightarrow> roomsNonEmpty (joinRoom e w R u s)"
  unfolding roomsNonEmpty_def rooms_joinRoom by (rule list_all_update) simp_all

lemma isMember_joinRoom:
  "isMember (joinRoom e w R u s) w' R' = ((w' = w \<and> R' = R) \<or> isMember s w' R')"
  by (auto simp: isMember_def rooms_joinRoom AList.update_conv' split: option.splits)

lemma tracksRoom_joinRoom:
  "tracksRoom (joinRoom e w R u s) w' R' = ((w' = w \<and> R' = R) \<or> tracksRoom s w' R')"
  by (auto simp: tracksRoom_def clientRooms_joinRoom split: option.splits)

lemma membershipConsistent_joinRoom:
  "membershipConsistent s \<Longrightarrow> membershipConsistent (joinRoom e w R u s)"
  by (simp add: membershipConsistent_def isMember_joinRoom tracksRoom_joinRoom)

lemma rooms_leaveRoom:
  "rooms (leaveRoom e w R s) =
     (case map_of (rooms s) R of
        None \<Rightarrow> rooms s
      | Some room0 \<Rightarrow>
          if setDelete w (clients room0) = [] then AList.delete R (rooms s)
          else AList.update R (room0\<lparr>clients := setDelete w (clients room0)\<rparr>) (rooms s))"
  by (simp add: leaveRoom_def broadcastToRoom_eq Let_def AList.update_conv' AList.delete_update_same
           split: option.splits)

lemma clientRooms_leaveRoom:
  "clientRooms (leaveRoom e w R s) =
     (case map_of (rooms s) R of
        None \<Rightarrow> clientRooms s
      | Some room0 \<Rightarrow>
          (case clientRooms s w of
             None \<Rightarrow> clientRooms s
           | Some rs \<Rightarrow> (clientRooms s)(w \<mapsto> setDelete R rs)))"
  by (simp add: leaveRoom_def broadcastToRoom_eq Let_def AList.update_conv' split: option.splits)

lemma others_leaveRoom:
  "clientData (leaveRoom e w R s) = clientData s"
  "userIdToSocket (leaveRoom e w R s) = userIdToSocket s"
  "typingUsers (leaveRoom e w R s) = typingUsers s"
  "rateLimiter (leaveRoom e w R s) = rateLimiter s"
  by (simp_all add: leaveRoom_def broadcastToRoom_eq Let_def AList.update_conv' split: option.splits)

lemma roomsNonEmpty_leaveRoom: "roomsNonEmpty s \<Longrightarrow> roomsNonEmpty (leaveRoom e w R s)"
  unfolding roomsNonEmpty_def rooms_leaveRoom
  by (auto split: option.splits intro!: list_all_update list_all_delete)

lemma isMember_leaveRoom:
  "isMember (leaveRoom e w R s) w' R' = (isMember s w' R' \<and> \<not> (w' = w \<and> R' = R))"
  by (auto simp: isMember_def rooms_leaveRoom AList.update_conv' AList.delete_conv' setDelete_Nil
           split: option.splits if_splits)

lemma tracksRoom_leaveRoom:
  "tracksRoom (leaveRoom e w R s) w' R' =
     (tracksRoom s w' R' \<and> \<not> (w' = w \<and> R' = R \<and> map_of (rooms s) R \<noteq> None))"
  by (auto simp: tracksRoom_def clientRooms_leaveRoom split: option.splits)

lemma membershipConsistent_leaveRoom:
  "membershipConsistent s \<Longrightarrow> membershipConsistent (leaveRoom e w R s)"
  unfolding membershipConsistent_def isMember_leaveRoom tracksRoom_leaveRoom
  using isMember_no_room by blast

lemma inv_cong:
  "rooms s' = rooms s \<Longrightarrow> clientRooms s' = clientRooms s \<Longrightarrow> inv s' = inv s"
  by (simp add: inv_def roomsNonEmpty_def membershipConsistent_def isMember_def tracksRoom_def)

lemma inv_sameMaps: "sameMaps s s' \<Longrightarrow> inv s' = inv s"
  by (rule inv_cong) (simp_all add: sameMaps_def)

lemma inv_joinRoom: "inv s \<Longrightarrow> inv (joinRoom e w R u s)"
  by (simp add: inv_def roomsNonEmpty_joinRoom membershipConsistent_joinRoom)

lemma inv_leaveRoom: "inv s \<Longrightarrow> inv (leaveRoom e w R s)"
  by (simp add: inv_def roomsNonEmpty_leaveRoom membershipConsistent_leaveRoom)

lemma inv_initial: "inv (initial rl)"
  by (simp add: inv_def initial_def roomsNonEmpty_def membershipConsistent_def isMember_def
        tracksRoom_def)

lemma sameMaps_messageBranch: "sameMaps s (messageBranch e w c r s)"
  by (simp add: messageBranch_def Let_def split: option.splits)

lemma sameMaps_dmTry:
  "dmTry e w ud rid rs (\<lambda>st. st) (\<lambda>st. st) s = Inl s'
     \<or> dmTry e w ud rid rs (\<lambda>st. st) (\<lambda>st. st) s = Inr s' \<Longrightarrow> sameMaps s s'"
  unfolding dmTry_def Let_def
  by (auto split: option.splits if_splits dest!: sameMaps_trySend intro: sameMaps_trans)

lemma sameMaps_dmBranch:
  "sameMaps s (dmBranch e w rid c (\<lambda>st. st) (\<lambda>st. st) (\<lambda>st. st) s)"
proof -
  have "sameMaps s (case dmTry e w ud rid rs (\<lambda>st. st) (\<lambda>st. st) s of
                      Inl s' \<Rightarrow> send e w ev s' | Inr s' \<Rightarrow> s')"
    for ud rs ev
    using sameMaps_dmTry [of e w ud rid rs s]
    by (auto split: sum.splits intro: sameMaps_trans [OF _ sameMaps_send])
  then show ?thesis
    by (simp add: dmBranch_def Let_def split: option.splits)
qed

lemma sameMaps_signalBranch: "sameMaps s (signalBranch e w to p s)"
  unfolding signalBranch_def
  by (auto split: option.splits dest!: sameMaps_trySend
           intro: sameMaps_trans [OF _ sameMaps_send] sameMaps_trans [OF sameMaps_publishSignal sameMaps_send]
                  sameMaps_trans)

lemma sameMaps_small:
  "sameMaps s (messageSeenBranch e w mid s)"
  "sameMaps s (starMessageBranch e w i s)"
  "sameMaps s (pinMessageBranch e w i rn s)"
  "sameMaps s (getRoomsBranch e w s)"
  "sameMaps s (getUsersBranch e w r s)"
  by (auto simp: messageSeenBranch_def starMessageBranch_def pinMessageBranch_def
        getRoomsBranch_def getUsersBranch_def Let_def
        split: option.splits dest!: sameMaps_trySend)

lemma rooms_setTyping:
  "rooms (setTyping e rn u t s) = rooms s" "clientRooms (setTyping e rn u t s) = clientRooms s"
  "clientData (setTyping e rn u t s) = clientData s"
  "userIdToSocket (setTyping e rn u t s) = userIdToSocket s"
  by (simp_all add: setTyping_def broadcastToRoom_eq Let_def split: option.splits)

lemma inv_typingBranch: "inv (typingBranch e w r t s) = inv s"
  by (rule inv_cong) (simp_all add: typingBranch_def rooms_setTyping split: option.splits)

lemma inv_leaveBranch: "inv s \<Longrightarrow> inv (leaveBranch e w r s)"
  by (simp add: leaveBranch_def Let_def inv_sameMaps [OF sameMaps_send] inv_leaveRoom)

lemma inv_joinBranch: "inv s \<Longrightarrow> inv (joinBranch e w u r i s)"
proof -
  assume a: "inv s"
  have reg: "inv (s\<lparr>clientData := cd, userIdToSocket := m\<rparr>)" for cd m
    using a by (simp add: inv_cong [of "s\<lparr>clientData := cd, userIdToSocket := m\<rparr>" s])
  have tail: "inv (case trySend e w ev s2 of None \<Rightarrow> s2
               | Some s3 \<Rightarrow> (case deliverPending e w ms s3 of None \<Rightarrow> s3 | Some s4 \<Rightarrow> s4))"
    if "inv s2" for s2 ev ms
    using that
    by (auto split: option.splits dest!: sameMaps_trySend sameMaps_deliverPending
          simp: inv_sameMaps dest: sameMaps_trans)
  show ?thesis
    unfolding joinBranch_def Let_def
    by (auto simp: inv_sameMaps [OF sameMaps_send] a intro!: tail inv_joinRoom reg)
qed

lemma inv_dispatch: "inv s \<Longrightarrow> inv (dispatch e w ev s)"
  by (cases ev)
     (simp_all add: inv_joinBranch inv_leaveBranch inv_typingBranch
        inv_sameMaps [OF sameMaps_messageBranch] inv_sameMaps [OF sameMaps_dmBranch]
        inv_sameMaps [OF sameMaps_signalBranch] inv_sameMaps [OF sameMaps_small(1)]
        inv_sameMaps [OF sameMaps_small(2)] inv_sameMaps [OF sameMaps_small(3)]
        inv_sameMaps [OF sameMaps_small(4)] inv_sameMaps [OF sameMaps_small(5)])

lemma inv_message: "inv s \<Longrightarrow> inv (message e w msg s)"
proof -
  assume a: "inv s"
  have rl: "inv (s\<lparr>rateLimiter := r\<rparr>)" for r
    using a by (simp add: inv_cong [of "s\<lparr>rateLimiter := r\<rparr>" s])
  show ?thesis
    unfolding message_def Let_def
    by (auto split: prod.splits option.splits simp: inv_sameMaps [OF sameMaps_send] rl
          intro!: inv_dispatch)
qed

lemma inv_fold_leaveRoom: "inv s \<Longrightarrow> inv (fold (\<lambda>roomName st. leaveRoom e w roomName st) rs s)"
  by (induction rs arbitrary: s) (simp_all add: inv_leaveRoom)

lemma inv_close: "inv s \<Longrightarrow> inv (close e w s)"
proof -
  assume a: "inv s"
  have "inv (s1\<lparr>userIdToSocket := m\<rparr>) = inv s1" for s1 m
    by (rule inv_cong) simp_all
  then show ?thesis
    unfolding close_def Let_def using a
    by (auto split: option.splits simp: inv_fold_leaveRoom)
qed

lemma inv_redis: "inv s \<Longrightarrow> inv (onRedisMessage e (redisCallback e) msg s)"
  unfolding onRedisMessage_def redisCallback_def
  by (auto split: option.splits RedisPayload.splits
        simp: inv_sameMaps [OF sameMaps_send] inv_sameMaps [OF sameMaps_broadcastToRoom])

lemma reachable_inv: "reachable s \<Longrightarrow> inv s"
  by (induction rule: reachable.induct)
     (simp_all add: inv_initial inv_message inv_close inv_redis)

section \<open>Rooms and membership\<close>

lemmas branch_defs = message_def rateLimitWebSocket_def checkLimit_def
  joinBranch_def leaveBranch_def messageBranch_def dmBranch_def dmTry_def signalBranch_def
  messageSeenBranch_def starMessageBranch_def pinMessageBranch_def typingBranch_def
  getRoomsBranch_def getUsersBranch_def setTyping_def

lemmas concrete_defs = env0_def msg0_def limiter0_def initial_def

lemma alice_in_eq:
  "alice_in = \<lparr>rooms = [(''general'', \<lparr>name = ''general'', clients = [1]\<rparr>)],
               clientRooms = [1 \<mapsto> [''general'']],
               clientData = [1 \<mapsto> \<lparr>cd_username = ''alice'', cd_userId = ''u1''\<rparr>],
               userIdToSocket = [''u1'' \<mapsto> 1], typingUsers = Map.empty,
               rateLimiter = limiter0\<lparr>store := [''ws:local'' \<mapsto> \<lparr>count = 1, resetTime = 60000\<rparr>]\<rparr>,
               outbox = [(1, Joined ''general'' [] [''alice''] ''u1'' 0)], published = []\<rparr>"
  by (simp add: alice_in_def branch_defs validation_defs room_defs concrete_defs Let_def)

lemma both_in_eq:
  "both_in = \<lparr>rooms = [(''general'', \<lparr>name = ''general'', clients = [1, 2]\<rparr>)],
               clientRooms = [1 \<mapsto> [''general''], 2 \<mapsto> [''general'']],
               clientData = [1 \<mapsto> \<lparr>cd_username = ''alice'', cd_userId = ''u1''\<rparr>,
                             2 \<mapsto> \<lparr>cd_username = ''bob'', cd_userId = ''u2''\<rparr>],
               userIdToSocket = [''u1'' \<mapsto> 1, ''u2'' \<mapsto> 2], typingUsers = Map.empty,
               rateLimiter = limiter0\<lparr>store := [''ws:local'' \<mapsto> \<lparr>count = 2, resetTime = 60000\<rparr>]\<rparr>,
               outbox = [(1, Joined ''general'' [] [''alice''] ''u1'' 0),
                         (1, UserJoined ''bob'' ''general'' 2),
                         (2, Joined ''general'' [] [''alice'', ''bob''] ''u2'' 0)], published = []\<rparr>"
  unfolding both_in_def alice_in_eq
  by (simp add: branch_defs validation_defs room_defs concrete_defs Let_def numeral_2_eq_2)

lemma reachable_alice_in: "reachable alice_in"
  unfolding alice_in_def by (intro reachable.intros)

lemma reachable_both_in: "reachable both_in"
  unfolding both_in_def by (intro reachable.intros reachable_alice_in)

lemma fst_getRoomList: "fst ` set (getRoomList s) = fst ` set (rooms s)"
  by (force simp: getRoomList_def)

text \<open>
  Claim C5. In every reachable state no room of the \<^verbatim>\<open>rooms\<close> map has an empty member set;
  and when a connection that is the only member of a room leaves it, the room is deleted and
  the room list no longer names it.
\<close>

theorem rooms_never_empty:
  assumes "reachable s"
  shows "list_all (\<lambda>(n, room). clients room \<noteq> []) (rooms s)
       \<and> (\<forall>e w R room. map_of (rooms s) R = Some room \<and> set (clients room) = {w} \<longrightarrow>
             map_of (rooms (leaveRoom e w R s)) R = None
           \<and> R \<notin> fst ` set (getRoomList (leaveRoom e w R s)))"
proof -
  have "inv s" using assms by (rule reachable_inv)
  then have first: "list_all (\<lambda>(n, room). clients room \<noteq> []) (rooms s)"
    by (simp add: inv_def roomsNonEmpty_def)
  have second: "map_of (rooms (leaveRoom e w R s)) R = None
           \<and> R \<notin> fst ` set (getRoomList (leaveRoom e w R s))"
    if "map_of (rooms s) R = Some room" and "set (clients room) = {w}" for e w R room
  proof -
    have "setDelete w (clients room) = []" using that(2) by (simp add: setDelete_Nil)
    then have "rooms (leaveRoom e w R s) = AList.delete R (rooms s)"
      using that(1) by (simp add: rooms_leaveRoom)
    then show ?thesis
      by (simp add: fst_getRoomList AList.delete_conv' AList.delete_notin_dom)
  qed
  show ?thesis using first second by blast
qed

theorem rooms_never_empty_witness:
  "reachable alice_in
   \<and> rooms alice_in = [(''general'', \<lparr>name = ''general'', clients = [1]\<rparr>)]
   \<and> map_of (rooms (leaveRoom env0 1 ''general'' alice_in)) ''general'' = None
   \<and> ''general'' \<notin> fst ` set (getRoomList (leaveRoom env0 1 ''general'' alice_in))"
proof -
  have r: "rooms alice_in = [(''general'', \<lparr>name = ''general'', clients = [1]\<rparr>)]"
    by (simp add: alice_in_eq)
  have "map_of (rooms alice_in) ''general'' = Some \<lparr>name = ''general'', clients = [1]\<rparr>
        \<and> set (clients \<lparr>name = ''general'', clients = [1::nat]\<rparr>) = {1}"
    by (simp add: r)
  then show ?thesis
    using rooms_never_empty [OF reachable_alice_in] reachable_alice_in r by blast
qed

lemma isMember_fold_leaveRoom:
  "isMember (fold (\<lambda>roomName st. leaveRoom e w roomName st) rs s) w' R'
     = (isMember s w' R' \<and> \<not> (w' = w \<and> R' \<in> set rs))"
  by (induction rs arbitrary: s) (auto simp: isMember_leaveRoom)

lemma rooms_close:
  "rooms (close e w s) =
     rooms (case clientRooms s w of None \<Rightarrow> s
            | Some rs \<Rightarrow> fold (\<lambda>roomName st. leaveRoom e w roomName st) rs s)"
  by (simp add: close_def Let_def split: option.splits)

lemma isMember_close:
  "isMember (close e w s) w' R' = (isMember s w' R' \<and> \<not> (w' = w \<and> tracksRoom s w R'))"
proof -
  have "isMember (close e w s) w' R' =
        isMember (case clientRooms s w of None \<Rightarrow> s
            | Some rs \<Rightarrow> fold (\<lambda>roomName st. leaveRoom e w roomName st) rs s) w' R'"
    by (simp add: isMember_def rooms_close)
  then show ?thesis
    by (auto simp: isMember_fold_leaveRoom tracksRoom_def split: option.splits)
qed

text \<open>
  Claim C10. In every reachable state a connection is in the member set of a room exactly when
  the room's name is in the connection's own room set. The cascade of \<^verbatim>\<open>close\<close> therefore
  visits the rooms the connection belongs to: afterwards the connection is a member of no room,
  its own set names no room, and the membership of every other connection is as before.
\<close>

theorem membership_consistent:
  assumes "reachable s"
  shows "(isMember s w R \<longleftrightarrow> tracksRoom s w R)
       \<and> \<not> isMember (close e w s) w R \<and> \<not> tracksRoom (close e w s) w R
       \<and> (w' \<noteq> w \<longrightarrow> isMember (close e w s) w' R = isMember s w' R)"
proof -
  have c: "membershipConsistent s" using reachable_inv [OF assms] by (simp add: inv_def)
  have "reachable (close e w s)" using assms by (rule reachable.intros)
  then have c': "membershipConsistent (close e w s)" using reachable_inv by (simp add: inv_def)
  have a: "isMember s w R \<longleftrightarrow> tracksRoom s w R" using c by (simp add: membershipConsistent_def)
  have b: "\<not> isMember (close e w s) w R" using a by (simp add: isMember_close)
  have d: "\<not> tracksRoom (close e w s) w R" using b c' by (simp add: membershipConsistent_def)
  show ?thesis using a b d by (simp add: isMember_close)
qed

theorem membership_consistent_witness:
  "reachable both_in \<and> isMember both_in 2 ''general'' \<and> tracksRoom both_in 2 ''general''
   \<and> \<not> isMember (close env0 2 both_in) 2 ''general''
   \<and> \<not> tracksRoom (close env0 2 both_in) 2 ''general''
   \<and> isMember (close env0 2 both_in) 1 ''general''"
proof -
  have m: "isMember both_in 2 ''general''" "isMember both_in 1 ''general''"
    by (simp_all add: both_in_eq isMember_def)
  show ?thesis
    using membership_consistent [OF reachable_both_in, of 2 "''general''" env0 1]
      reachable_both_in m by simp
qed

section \<open>The relay subscription\<close>

text \<open>
  Claim C2. A relay envelope whose \<^verbatim>\<open>from\<close> is the local instance id is dropped by the
  listener without calling the handler, whatever the handler is. Every envelope that a local
  broadcast hands to the relay carries that id, so when the relay returns it to the instance
  that published it the state is left as it is: nothing is sent to the local room members a
  second time.
\<close>

theorem relay_self_echo:
  assumes "redisFrom parsed = instanceId e"
  shows "onRedisMessage e handler (Some parsed) s = s
       \<and> (\<forall>room d ex s0 m.
             m \<in> set (published (broadcastToRoom e room d ex False s0)) - set (published s0) \<longrightarrow>
             onRedisMessage e (redisCallback e) (Some m) s = s)"
proof -
  have first: "onRedisMessage e handler (Some parsed) s = s"
    using assms by (simp add: onRedisMessage_def)
  have second: "onRedisMessage e (redisCallback e) (Some m) s = s"
    if "m \<in> set (published (broadcastToRoom e room d ex False s0)) - set (published s0)"
    for room d ex s0 m
  proof -
    have "m = BroadcastMessage (instanceId e) room d"
      using that by (auto simp: broadcastToRoom_eq split: option.splits if_splits)
    then show ?thesis by (simp add: onRedisMessage_def)
  qed
  show ?thesis using first second by blast
qed

theorem relay_self_echo_witness:
  "redisFrom (BroadcastMessage ''A'' ''general'' (Typing ''general'' [''bob''])) = instanceId env_relay
   \<and> onRedisMessage env_relay (redisCallback env_relay)
        (Some (BroadcastMessage ''A'' ''general'' (Typing ''general'' [''bob'']))) both_in = both_in
   \<and> outbox (onRedisMessage env_relay (redisCallback env_relay)
        (Some (BroadcastMessage ''B'' ''general'' (Typing ''general'' [''bob'']))) both_in)
       = outbox both_in @ [(1, Typing ''general'' [''bob'']), (2, Typing ''general'' [''bob''])]"
proof -
  have h: "redisFrom (BroadcastMessage ''A'' ''general'' (Typing ''general'' [''bob'']))
             = instanceId env_relay"
    by (simp add: env_relay_def env0_def)
  have other: "outbox (onRedisMessage env_relay (redisCallback env_relay)
        (Some (BroadcastMessage ''B'' ''general'' (Typing ''general'' [''bob'']))) both_in)
       = outbox both_in @ [(1, Typing ''general'' [''bob'']), (2, Typing ''general'' [''bob''])]"
    by (simp add: onRedisMessage_def redisCallback_def env_relay_def env0_def both_in_eq
          broadcastToRoom_eq deliveries_def)
  show ?thesis
    using relay_self_echo [OF h, of "redisCallback env_relay" both_in] h other by simp
qed

section \<open>Joining again, leaving without membership, closing\<close>

lemma room_of_member:
  assumes "reachable s" and "map_of (rooms s) R = Some room"
  shows "clients room \<noteq> []"
proof -
  have "list_all (\<lambda>(n, room). clients room \<noteq> []) (rooms s)"
    using reachable_inv [OF assms(1)] by (simp add: inv_def roomsNonEmpty_def)
  moreover have "(R, room) \<in> set (rooms s)" using assms(2) by (rule map_of_SomeD)
  ultimately show ?thesis by (auto simp: list_all_iff)
qed

lemma outbox_joinRoom:
  "outbox (joinRoom e w R u s) =
     outbox s @ deliveries e
       (UserJoined u R (length (setAdd w (clients (case map_of (rooms s) R of
                           None \<Rightarrow> \<lparr>name = R, clients = []\<rparr> | Some r \<Rightarrow> r)))))
       (Some w)
       (setAdd w (clients (case map_of (rooms s) R of
                           None \<Rightarrow> \<lparr>name = R, clients = []\<rparr> | Some r \<Rightarrow> r)))"
  by (simp add: joinRoom_def broadcastToRoom_eq Let_def AList.update_conv')

text \<open>
  Claim C6, as the code has it. When a connection that is already a member of a room joins it
  again, the \<^verbatim>\<open>rooms\<close> map and the connection's own room set are unchanged, so the member
  count is the same; but \<^verbatim>\<open>joinRoom\<close> broadcasts once more: every other member whose socket
  accepts the send receives one more \<^verbatim>\<open>user_joined\<close>, carrying the unchanged count.
\<close>

theorem rejoin_keeps_count_but_notifies:
  assumes "reachable s" and "map_of (rooms s) R = Some room" and "w \<in> set (clients room)"
  shows "rooms (joinRoom e w R u s) = rooms s
       \<and> clientRooms (joinRoom e w R u s) = clientRooms s
       \<and> outbox (joinRoom e w R u s) =
           outbox s @ map (\<lambda>c. (c, UserJoined u R (length (clients room))))
                          (filter (\<lambda>c. c \<noteq> w \<and> \<not> sendThrows e c) (clients room))"
proof -
  have add: "setAdd w (clients room) = clients room" using assms(3) by (simp add: setAdd_def)
  have r: "rooms (joinRoom e w R u s) = rooms s"
    using assms(2) add by (simp add: rooms_joinRoom AList.update_triv)
  have "isMember s w R" using assms(2,3) by (simp add: isMember_def)
  then have "tracksRoom s w R"
    using reachable_inv [OF assms(1)] by (simp add: inv_def membershipConsistent_def)
  then obtain rs where rs: "clientRooms s w = Some rs" "R \<in> set rs"
    by (auto simp: tracksRoom_def split: option.splits)
  have c: "clientRooms (joinRoom e w R u s) = clientRooms s"
    using rs by (auto simp: clientRooms_joinRoom setAdd_def)
  have o: "outbox (joinRoom e w R u s) =
           outbox s @ map (\<lambda>c. (c, UserJoined u R (length (clients room))))
                          (filter (\<lambda>c. c \<noteq> w \<and> \<not> sendThrows e c) (clients room))"
    using assms(2) add by (simp add: outbox_joinRoom deliveries_def)
  show ?thesis using r c o by simp
qed

theorem rejoin_keeps_count_but_notifies_witness:
  "reachable both_in
   \<and> map_of (rooms both_in) ''general'' = Some \<lparr>name = ''general'', clients = [1, 2]\<rparr>
   \<and> rooms (joinRoom env0 1 ''general'' ''alice'' both_in) = rooms both_in
   \<and> outbox (joinRoom env0 1 ''general'' ''alice'' both_in)
       = outbox both_in @ [(2, UserJoined ''alice'' ''general'' 2)]"
proof -
  have m: "map_of (rooms both_in) ''general'' = Some \<lparr>name = ''general'', clients = [1, 2]\<rparr>"
    by (simp add: both_in_eq)
  have i: "(1::nat) \<in> set (clients \<lparr>name = ''general'', clients = [1, 2]\<rparr>)" by simp
  show ?thesis
    using rejoin_keeps_count_but_notifies [OF reachable_both_in m i, of env0 "''alice''"]
      reachable_both_in m
    by (simp add: env0_def)
qed

text \<open>
  Claim C6 as stated fails: with connections 1 and 2 in room \<open>general\<close>, a second join of
  connection 1 sends connection 2 another \<^verbatim>\<open>user_joined\<close>.
\<close>

theorem rejoin_notifies_counterexample:
  "isMember both_in 1 ''general''
   \<and> outbox (joinRoom env0 1 ''general'' ''alice'' both_in)
       = outbox both_in @ [(2, UserJoined ''alice'' ''general'' 2)]"
  by (simp add: both_in_eq isMember_def outbox_joinRoom deliveries_def setAdd_def env0_def)

lemma outbox_leaveRoom:
  "outbox (leaveRoom e w R s) =
     (case map_of (rooms s) R of
        None \<Rightarrow> outbox s
      | Some room0 \<Rightarrow>
          if setDelete w (clients room0) = [] then outbox s
          else outbox s @ deliveries e
                 (UserLeft (case clientData s w of
                              None \<Rightarrow> ''Anonymous''
                            | Some userData \<Rightarrow> orDefault (cd_username userData) ''Anonymous'')
                           R (length (setDelete w (clients room0))))
                 None (setDelete w (clients room0)))"
  by (simp add: leaveRoom_def broadcastToRoom_eq Let_def AList.update_conv' split: option.splits)

text \<open>
  Claim C7, as the code has it. When a connection leaves a room it is not a member of, the
  \<^verbatim>\<open>rooms\<close> map, every member set, every per-connection room set, the identities and the
  presence map are unchanged. Nothing is sent when the room does not exist; when it exists,
  \<^verbatim>\<open>leaveRoom\<close> does not look at membership and every member whose socket accepts the send
  receives a \<^verbatim>\<open>user_left\<close> with the leaver's user name (\<open>Anonymous\<close> without an identity) and
  the unchanged count.
\<close>

theorem leave_nonmember:
  assumes "reachable s" and "\<not> isMember s w R"
  shows "rooms (leaveRoom e w R s) = rooms s
       \<and> clientRooms (leaveRoom e w R s) = clientRooms s
       \<and> clientData (leaveRoom e w R s) = clientData s
       \<and> userIdToSocket (leaveRoom e w R s) = userIdToSocket s
       \<and> typingUsers (leaveRoom e w R s) = typingUsers s
       \<and> outbox (leaveRoom e w R s) =
           (case map_of (rooms s) R of
              None \<Rightarrow> outbox s
            | Some room \<Rightarrow>
                outbox s @ map (\<lambda>c. (c, UserLeft
                                  (case clientData s w of
                                     None \<Rightarrow> ''Anonymous''
                                   | Some userData \<Rightarrow> orDefault (cd_username userData) ''Anonymous'')
                                  R (length (clients room))))
                               (filter (\<lambda>c. \<not> sendThrows e c) (clients room)))"
proof (cases "map_of (rooms s) R")
  case None
  then show ?thesis
    by (simp add: rooms_leaveRoom clientRooms_leaveRoom others_leaveRoom outbox_leaveRoom)
next
  case (Some room)
  have notin: "w \<notin> set (clients room)" using assms(2) Some by (simp add: isMember_def)
  then have del: "setDelete w (clients room) = clients room" by (simp add: setDelete_def)
  have ne: "clients room \<noteq> []" using room_of_member [OF assms(1) Some] .
  have r: "rooms (leaveRoom e w R s) = rooms s"
    using Some del ne by (simp add: rooms_leaveRoom AList.update_triv)
  have "\<not> tracksRoom s w R"
    using assms(2) reachable_inv [OF assms(1)] by (simp add: inv_def membershipConsistent_def)
  then have c: "clientRooms (leaveRoom e w R s) = clientRooms s"
    using Some by (auto simp: clientRooms_leaveRoom tracksRoom_def setDelete_def split: option.splits)
  have o: "outbox (leaveRoom e w R s) =
             outbox s @ map (\<lambda>c. (c, UserLeft
                                  (case clientData s w of
                                     None \<Rightarrow> ''Anonymous''
                                   | Some userData \<Rightarrow> orDefault (cd_username userData) ''Anonymous'')
                                  R (length (clients room))))
                               (filter (\<lambda>c. \<not> sendThrows e c) (clients room))"
    using Some del ne by (simp add: outbox_leaveRoom deliveries_def)
  show ?thesis using r c o Some by (simp add: others_leaveRoom)
qed

theorem leave_nonmember_witness:
  "reachable alice_in \<and> \<not> isMember alice_in 2 ''general''
   \<and> rooms (leaveRoom env0 2 ''general'' alice_in) = rooms alice_in
   \<and> clientRooms (leaveRoom env0 2 ''general'' alice_in) = clientRooms alice_in
   \<and> outbox (leaveRoom env0 2 ''general'' alice_in)
       = outbox alice_in @ [(1, UserLeft ''Anonymous'' ''general'' 1)]
   \<and> outbox (leaveRoom env0 2 ''lobby'' alice_in) = outbox alice_in"
proof -
  have n: "\<not> isMember alice_in 2 ''general''" "\<not> isMember alice_in 2 ''lobby''"
    by (simp_all add: alice_in_eq isMember_def)
  have m: "map_of (rooms alice_in) ''general'' = Some \<lparr>name = ''general'', clients = [1]\<rparr>"
    "map_of (rooms alice_in) ''lobby'' = None" "clientData alice_in 2 = None"
    by (simp_all add: alice_in_eq)
  show ?thesis
    using leave_nonmember [OF reachable_alice_in n(1), of env0]
      leave_nonmember [OF reachable_alice_in n(2), of env0] reachable_alice_in n m
    by (simp add: env0_def)
qed

text \<open>
  Claim C7 as stated fails: connection 2, which never joined, leaves \<open>general\<close>, and the
  member, connection 1, is sent a \<^verbatim>\<open>user_left\<close>.
\<close>

theorem leave_nonmember_counterexample:
  "\<not> isMember alice_in 2 ''general''
   \<and> outbox (leaveRoom env0 2 ''general'' alice_in)
       = outbox alice_in @ [(1, UserLeft ''Anonymous'' ''general'' 1)]"
  by (simp add: alice_in_eq isMember_def outbox_leaveRoom deliveries_def setDelete_def env0_def)

lemma frame_fold_leaveRoom:
  "userIdToSocket (fold (\<lambda>roomName st. leaveRoom e w roomName st) rs s) = userIdToSocket s"
  "clientData (fold (\<lambda>roomName st. leaveRoom e w roomName st) rs s) = clientData s"
  by (induction rs arbitrary: s) (simp_all add: others_leaveRoom)

lemma userIdToSocket_close:
  "userIdToSocket (close e w s) =
     (case clientData s w of
        None \<Rightarrow> userIdToSocket s
      | Some d \<Rightarrow> (userIdToSocket s)(cd_userId d := None))"
  by (simp add: close_def Let_def frame_fold_leaveRoom split: option.splits)

text \<open>
  Claim C8, as the code has it. \<^verbatim>\<open>close\<close> deletes the presence entry under the user id of the
  closing connection's identity, whichever connection that entry points at, and leaves every
  other entry alone; a connection without an identity deletes nothing.
\<close>

theorem close_unregisters_by_userId:
  "userIdToSocket (close e w s) =
     (case clientData s w of
        None \<Rightarrow> userIdToSocket s
      | Some d \<Rightarrow> (userIdToSocket s)(cd_userId d := None))"
  by (rule userIdToSocket_close)

lemma superseded_presence:
  "userIdToSocket superseded = [''u1'' \<mapsto> 2]"
  "clientData superseded (Suc 0) = Some \<lparr>cd_username = ''alice'', cd_userId = ''u1''\<rparr>"
  unfolding superseded_def alice_in_eq
  by (simp_all add: branch_defs validation_defs room_defs concrete_defs Let_def)

text \<open>
  Claim C8 as stated fails: connection 1 joins as \<open>u1\<close>, connection 2 joins as \<open>u1\<close> and
  takes over the presence entry, then connection 1 closes. The entry of \<open>u1\<close>, which pointed at
  connection 2, is gone.
\<close>

theorem close_unregisters_newer_counterexample:
  "reachable superseded \<and> userIdToSocket superseded ''u1'' = Some 2
   \<and> userIdToSocket (close env0 1 superseded) ''u1'' = None"
proof -
  have "reachable superseded"
    unfolding superseded_def by (intro reachable.intros reachable_alice_in)
  then show ?thesis
    by (simp add: userIdToSocket_close superseded_presence)
qed

section \<open>Direct messages and events before join\<close>

lemma send_eq: "send e w ev s = s\<lparr>outbox := outbox s @ (if sendThrows e w then [] else [(w, ev)])\<rparr>"
  by (simp add: send_def trySend_def)






text \<open>
  Claim C4, as the code has it. On a connection without an identity, \<^verbatim>\<open>message\<close>, \<^verbatim>\<open>dm\<close> and
  \<^verbatim>\<open>signal\<close> (and \<^verbatim>\<open>group_message\<close> in websocket-demo/server.ts) send one error reply to the
  sender; \<^verbatim>\<open>typing\<close>, \<^verbatim>\<open>message_seen\<close>, \<^verbatim>\<open>star_message\<close> and \<^verbatim>\<open>pin_message\<close> return at
  once and send nothing; \<^verbatim>\<open>get_rooms\<close> and \<^verbatim>\<open>get_users\<close> do not look at the identity and
  answer with the list. A reply is one event appended for the sender, if its socket accepts
  it; in every case the rooms, the room sets, the identities, the presence map and the typing
  sets are left as they are.
\<close>

theorem unauthenticated_events:
  assumes "clientData s w = None"
  shows "dispatch e w (MessageReq c r) s = send e w (Error ''Not authenticated. Please join first.'') s
       \<and> dispatch e w (DmReq rid c) s = send e w (Error ''Not authenticated'') s
       \<and> dispatch e w (SignalReq to p) s = send e w (Error ''Not authenticated'') s
       \<and> groupMessageBranch e w rids c g s =
           send e w (Error ''Not authenticated. Please send 'join' message first with username and userId'') s
       \<and> dispatch e w (TypingReq r t) s = s
       \<and> dispatch e w (MessageSeenReq mid) s = s
       \<and> dispatch e w (StarMessageReq i) s = s
       \<and> dispatch e w (PinMessageReq i r) s = s
       \<and> dispatch e w GetRoomsReq s = send e w (RoomList (getRoomList s)) s
       \<and> dispatch e w (GetUsersReq r) s =
           send e w (UserList (orDefault r ''general'') (getOnlineUsers s (orDefault r ''general''))) s
       \<and> send e w ev s = s\<lparr>outbox := outbox s @ (if sendThrows e w then [] else [(w, ev)])\<rparr>"
  using assms
  by (simp add: messageBranch_def dmBranch_def signalBranch_def groupMessageBranch_def
        typingBranch_def messageSeenBranch_def starMessageBranch_def pinMessageBranch_def
        getRoomsBranch_def getUsersBranch_def Let_def send_eq)

theorem unauthenticated_events_witness:
  "clientData alice_in 2 = None
   \<and> outbox (dispatch env0 2 (DmReq ''u1'' ''hi'') alice_in)
       = outbox alice_in @ [(2, Error ''Not authenticated'')]
   \<and> dispatch env0 2 (TypingReq ''general'' True) alice_in = alice_in
   \<and> outbox (dispatch env0 2 GetRoomsReq alice_in)
       = outbox alice_in @ [(2, RoomList [(''general'', 1)])]"
proof -
  have n: "clientData alice_in 2 = None" by (simp add: alice_in_eq)
  have l: "getRoomList alice_in = [(''general'', 1)]" by (simp add: alice_in_eq getRoomList_def)
  have t: "\<not> sendThrows env0 2" by (simp add: env0_def)
  show ?thesis
    using unauthenticated_events [OF n, where e = env0 and c = "''hi''" and rid = "''u1''"
        and r = "''general''" and t = True] n l t
    by (simp add: send_eq)
qed

text \<open>
  Claim C4 as stated fails: connection 2 has no identity; its \<^verbatim>\<open>typing\<close> event is answered
  with nothing at all, and its \<^verbatim>\<open>get_rooms\<close> with the room list, not with an error.
\<close>

theorem unauthenticated_typing_counterexample:
  "clientData alice_in 2 = None
   \<and> outbox (message env0 2 (Some (TypingReq ''general'' True)) alice_in) = outbox alice_in
   \<and> outbox (message env0 2 (Some GetRoomsReq) alice_in)
       = outbox alice_in @ [(2, RoomList [(''general'', 1)])]"
  unfolding alice_in_eq
  by (simp add: branch_defs room_defs concrete_defs Let_def)

section \<open>Group messages\<close>

lemma three_in_presence:
  "userIdToSocket three_in = [''u1'' \<mapsto> 1, ''u2'' \<mapsto> 2, ''u3'' \<mapsto> 3]"
  "clientData three_in (Suc 0) = Some \<lparr>cd_username = ''alice'', cd_userId = ''u1''\<rparr>"
  unfolding three_in_def both_in_eq
  by (simp_all add: branch_defs validation_defs room_defs concrete_defs Let_def)

lemmas group_defs = groupMessageBranch_def groupTry_def trySend_def send_def
  trim_def isSpace_def orDefault_def

text \<open>
  While no send and no queue publish throws, every recipient is handled on its own: the ones
  with a presence entry get the message, the others are listed as offline, and the sender gets
  one acknowledgment with the two counts and the offline list.
\<close>

lemma groupLoop_no_throw:
  assumes "\<forall>r\<in>set rids. \<forall>sock. userIdToSocket s r = Some sock \<longrightarrow> \<not> sendThrows e sock"
    and "\<not> (useRabbitMQ e \<and> queueThrows e)"
  shows "groupLoop e ev rids s n off =
           Inr (s\<lparr>outbox := outbox s @
                     concat (map (\<lambda>r. case userIdToSocket s r of
                                         None \<Rightarrow> [] | Some sock \<Rightarrow> [(sock, ev)]) rids)\<rparr>,
                n + length (filter (\<lambda>r. userIdToSocket s r \<noteq> None) rids),
                off @ filter (\<lambda>r. userIdToSocket s r = None) rids)"
  using assms
proof (induction rids arbitrary: s n off)
  case Nil
  then show ?case by simp
next
  case (Cons r rids)
  show ?case
  proof (cases "userIdToSocket s r")
    case None
    have "groupLoop e ev (r # rids) s n off = groupLoop e ev rids s n (off @ [r])"
      using None Cons.prems(2) by auto
    also have "\<dots> = Inr (s\<lparr>outbox := outbox s @
                     concat (map (\<lambda>r. case userIdToSocket s r of
                                         None \<Rightarrow> [] | Some sock \<Rightarrow> [(sock, ev)]) rids)\<rparr>,
                n + length (filter (\<lambda>r. userIdToSocket s r \<noteq> None) rids),
                (off @ [r]) @ filter (\<lambda>r. userIdToSocket s r = None) rids)"
      using Cons.prems by (intro Cons.IH) simp_all
    finally show ?thesis using None by simp
  next
    case (Some sock)
    let ?s1 = "s\<lparr>outbox := outbox s @ [(sock, ev)]\<rparr>"
    have ok: "\<not> sendThrows e sock" using Some Cons.prems(1) by simp
    have "groupLoop e ev (r # rids) s n off = groupLoop e ev rids ?s1 (n + 1) off"
      using Some ok by (simp add: trySend_def)
    also have "\<dots> = Inr (?s1\<lparr>outbox := outbox ?s1 @
                     concat (map (\<lambda>r. case userIdToSocket ?s1 r of
                                         None \<Rightarrow> [] | Some sock \<Rightarrow> [(sock, ev)]) rids)\<rparr>,
                (n + 1) + length (filter (\<lambda>r. userIdToSocket ?s1 r \<noteq> None) rids),
                off @ filter (\<lambda>r. userIdToSocket ?s1 r = None) rids)"
      using Cons.prems by (intro Cons.IH) simp_all
    finally show ?thesis using Some by simp
  qed
qed

lemma groupMessageBranch_no_throw:
  assumes "clientData s w = Some ud" and "rids \<noteq> []" and "trim c \<noteq> []"
    and "saveMessage e = Some m"
    and "\<forall>r\<in>set rids. \<forall>sock. userIdToSocket s r = Some sock \<longrightarrow> \<not> sendThrows e sock"
    and "\<not> (useRabbitMQ e \<and> queueThrows e)" and "\<not> sendThrows e w"
  shows "outbox (groupMessageBranch e w rids c g s) =
           outbox s
           @ concat (map (\<lambda>r. case userIdToSocket s r of
                               None \<Rightarrow> []
                             | Some sock \<Rightarrow>
                                 [(sock, GroupMessage (cd_userId ud) (cd_username ud)
                                           (orDefault g ''private-group'') rids m)]) rids)
           @ [(w, GroupMessageSent (orDefault g ''private-group'') rids
                    (length (filter (\<lambda>r. userIdToSocket s r \<noteq> None) rids))
                    (length (filter (\<lambda>r. userIdToSocket s r = None) rids))
                    (filter (\<lambda>r. userIdToSocket s r = None) rids) [] m)]"
  using assms(1-4,7)
  by (simp add: groupMessageBranch_def groupTry_def Let_def trySend_def
        groupLoop_no_throw [OF assms(5,6)])

text \<open>
  Claim C9 at a failing input. The recipients \<open>u2\<close> and \<open>u3\<close> are both connected and the send
  to the socket of \<open>u2\<close> throws. The exception leaves the loop: \<open>u3\<close>, whose socket is sound,
  is never tried, and the sender receives the error reply instead of the acknowledgment. When
  no send throws, both recipients get the message and the sender one acknowledgment.
\<close>

theorem group_message_send_failure:
  "userIdToSocket three_in ''u2'' = Some 2 \<and> userIdToSocket three_in ''u3'' = Some 3
   \<and> sendThrows env_fail 2 \<and> \<not> sendThrows env_fail 3 \<and> \<not> sendThrows env_fail 1
   \<and> outbox (groupMessageBranch env_fail 1 [''u2'', ''u3''] ''hi'' ''team'' three_in)
       = outbox three_in @ [(1, Error ''Failed to send group message'')]
   \<and> outbox (groupMessageBranch env0 1 [''u2'', ''u3''] ''hi'' ''team'' three_in)
       = outbox three_in @
           [(2, GroupMessage ''u1'' ''alice'' ''team'' [''u2'', ''u3''] msg0),
            (3, GroupMessage ''u1'' ''alice'' ''team'' [''u2'', ''u3''] msg0),
            (1, GroupMessageSent ''team'' [''u2'', ''u3''] 2 0 [] [] msg0)]"
  by (simp add: three_in_presence group_defs env_fail_def env0_def Let_def)

end
